theory Spec2Isabelle
  imports
    Main
    "HOL-Library.Word"
    "HOL-Library.Char_ord"
    "HOL-Library.List_Lexorder"
begin

section \<open>The bank module's SendAuthorization (x/bank/types/send\_authorization.go)\<close>

text \<open>
  A \<open>SendAuthorization\<close> is a grant that lets a grantee send coins on behalf of a
  granter, up to a spend limit and, optionally, only to the addresses of an allow list.
  This theory embeds \<open>NewSendAuthorization\<close>, \<open>Accept\<close>, \<open>ValidateBasic\<close> and
  \<open>toBech32Addresses\<close> of that file and proves the properties its specification states.
\<close>

subsection \<open>Errors\<close>

text \<open>
  The registered errors the file returns, and the value the gas meter panics with.
  \<open>ErrInvalidType\<close> is the specification's TypeMismatch, \<open>ErrInsufficientFunds\<close> its
  InsufficientAuthorization, \<open>ErrUnauthorized\<close> its RecipientNotAuthorized,
  \<open>ErrInvalidCoins\<close> its InvalidLimit, \<open>ErrDuplicateEntry\<close> its
  DuplicateAllowListEntry and \<open>ErrorOutOfGas\<close> its ResourceExhausted.
  \<open>ErrCodec\<close> stands for whatever error an address codec reports.
\<close>

datatype error =
    ErrInvalidType
  | ErrInsufficientFunds
  | ErrUnauthorized
  | ErrInvalidCoins
  | ErrDuplicateEntry
  | ErrorOutOfGas
  | ErrCodec string

subsection \<open>Coins\<close>

text \<open>
  The type \<open>sdk.Coins\<close> and its methods (package \<open>types\<close>) are not among the sources
  of this development; \<open>Accept\<close> and \<open>ValidateBasic\<close> call \<open>SafeSub\<close>, \<open>IsZero\<close>
  and \<open>IsAllPositive\<close>. They are modelled from the specification, which describes a
  multi-denomination amount as an ordered set of (denomination, amount) pairs and the
  limit check as the subtraction per denomination over the whole set. Amounts are
  unbounded integers (\<open>math.Int\<close>), so that a negative difference can be represented.
\<close>

type_synonym Coin = "string \<times> int"
type_synonym Coins = "Coin list"

text \<open>
  Modelled from the spec: the amount a multi-denomination amount holds in one
  denomination (\<open>sdk.Coins\<close> is missing); a denomination without an entry holds zero.
\<close>

definition AmountOf :: "Coins \<Rightarrow> string \<Rightarrow> int" where
  "AmountOf coins denom = sum_list (map snd (filter (\<lambda>c. fst c = denom) coins))"

text \<open>
  Modelled from the spec: the negation of every amount, by which \<open>SafeSub\<close> subtracts
  (\<open>sdk.Coins\<close> is missing).
\<close>

definition negative :: "Coins \<Rightarrow> Coins" where
  "negative coins = map (\<lambda>c. (fst c, - snd c)) coins"

text \<open>
  Modelled from the spec: the sum per denomination of two multi-denomination amounts
  (\<open>sdk.Coins\<close> is missing): one entry for each denomination that occurs in either, in
  the order of the denominations, and no entry for a denomination whose sum is zero.
\<close>

definition safeAdd :: "Coins \<Rightarrow> Coins \<Rightarrow> Coins" where
  "safeAdd coins coinsB =
     filter (\<lambda>c. snd c \<noteq> 0)
       (map (\<lambda>denom. (denom, AmountOf coins denom + AmountOf coinsB denom))
          (sort (remdups (map fst (coins @ coinsB)))))"

text \<open>
  Modelled from the spec: whether the result is negative in any denomination
  (\<open>sdk.Coins\<close> is missing).
\<close>

definition IsAnyNegative :: "Coins \<Rightarrow> bool" where
  "IsAnyNegative coins = list_ex (\<lambda>c. snd c < 0) coins"

text \<open>
  Modelled from the spec: \<open>Coins.SafeSub\<close> (missing), the subtraction per denomination
  of the amount of a transfer from a spend limit. It returns the difference and whether
  the difference is negative in any denomination, which is the case when the transfer
  asks for more of a denomination than the limit holds, or for a denomination that the
  limit does not hold at all.
\<close>

definition SafeSub :: "Coins \<Rightarrow> Coins \<Rightarrow> Coins \<times> bool" where
  "SafeSub coins coinsB =
     (let diff = safeAdd coins (negative coinsB) in (diff, IsAnyNegative diff))"

text \<open>
  Modelled from the spec: \<open>Coins.IsZero\<close> (missing), whether the residual is exactly
  zero in every denomination.
\<close>

definition IsZero :: "Coins \<Rightarrow> bool" where
  "IsZero coins = list_all (\<lambda>c. snd c = 0) coins"

text \<open>
  Modelled from the spec: \<open>Coins.IsAllPositive\<close> (missing), whether the set is not
  empty and every amount is strictly positive.
\<close>

definition IsAllPositive :: "Coins \<Rightarrow> bool" where
  "IsAllPositive coins = (length coins \<noteq> 0 \<and> list_all (\<lambda>c. 0 < snd c) coins)"

subsection \<open>The gas meter\<close>

text \<open>
  Modelled from the spec: the gas meter of the execution context
  (\<open>sdkCtx.GasMeter()\<close>, an interface whose implementation is missing). The
  specification describes it as a mutable budget per execution context that is charged
  a number of units at a time. The meter holds the budget (\<open>limit\<close>), the units
  consumed so far and, to count the calls, the amounts of the charges made, oldest
  first.
\<close>

record GasMeter =
  limit :: nat
  consumed :: nat
  charges :: "64 word list"

text \<open>
  Modelled from the spec: \<open>GasMeter.ConsumeGas\<close> (missing). A charge adds its amount
  to the units consumed; a charge that exceeds the budget aborts the evaluation with a
  resource-exhaustion failure. \<open>Inl ErrorOutOfGas\<close> is that abort, a panic of the Go
  method; the meter is returned as the charge leaves it.
\<close>

definition ConsumeGas :: "64 word \<Rightarrow> GasMeter \<Rightarrow> (error + unit) \<times> GasMeter" where
  "ConsumeGas amount g =
     (let g' = g\<lparr>consumed := consumed g + unat amount, charges := charges g @ [amount]\<rparr>
      in if limit g' < consumed g' then (Inl ErrorOutOfGas, g') else (Inr (), g'))"

subsection \<open>Messages and the authorization record\<close>

text \<open>
  The structs \<open>MsgSend\<close>, \<open>SendAuthorization\<close> and \<open>authz.AcceptResponse\<close> are
  declared in files that are not among the sources; the records hold the fields that
  \<open>send_authorization.go\<close> reads and writes.
\<close>

record MsgSend =
  ToAddress :: string
  Amount :: Coins

text \<open>
  An \<open>sdk.Msg\<close> is either a \<open>*MsgSend\<close> or a message of another type, of which only
  the type URL is kept: the type assertion of \<open>Accept\<close> looks at nothing else.
\<close>

datatype Msg = IsMsgSend MsgSend | OtherMsg string

text \<open>
  The allow list is a Go slice of strings; the empty list stands for both the nil slice
  and the slice of length zero, which \<open>len\<close> and \<open>range\<close> do not tell apart.
\<close>

record SendAuthorization =
  SpendLimit :: Coins
  AllowList :: "string list"

record AcceptResponse =
  Accept :: bool
  Delete :: bool
  Updated :: "SendAuthorization option"

definition gasCostPerIteration :: "64 word" where
  "gasCostPerIteration = 10"

definition GetAllowList :: "SendAuthorization \<Rightarrow> string list" where
  "GetAllowList a = AllowList a"

subsection \<open>Accept\<close>

text \<open>
  The loop over the allow list: each entry is charged to the gas meter before it is
  compared with the recipient, and the loop breaks at the first entry that matches.
  The result is the value of \<open>isAddrExists\<close> after the loop, or the panic of the meter.
\<close>

fun allowListLoop :: "string \<Rightarrow> string list \<Rightarrow> GasMeter \<Rightarrow> (error + bool) \<times> GasMeter" where
  "allowListLoop toAddr [] ctx = (Inr False, ctx)"
| "allowListLoop toAddr (addr # rest) ctx =
     (case ConsumeGas gasCostPerIteration ctx of
        (Inl e, ctx') \<Rightarrow> (Inl e, ctx')
      | (Inr _, ctx') \<Rightarrow>
          if addr = toAddr then (Inr True, ctx') else allowListLoop toAddr rest ctx')"

text \<open>
  \<open>Accept\<close> returns an \<open>AcceptResponse\<close> and an error; with every error it returns
  the zero response, so that the result is the error or the response. The second
  component is the gas meter of the context after the call.
\<close>

definition SendAuthorization_Accept ::
  "SendAuthorization \<Rightarrow> GasMeter \<Rightarrow> Msg \<Rightarrow> (error + AcceptResponse) \<times> GasMeter" where
  "SendAuthorization_Accept a ctx msg =
     (case msg of
        OtherMsg _ \<Rightarrow> (Inl ErrInvalidType, ctx)
      | IsMsgSend mSend \<Rightarrow>
          (case SafeSub (SpendLimit a) (Amount mSend) of
             (limitLeft, isNegative) \<Rightarrow>
               if isNegative then (Inl ErrInsufficientFunds, ctx)
               else
                 (let toAddr = ToAddress mSend;
                      allowedList = GetAllowList a
                  in case allowListLoop toAddr allowedList ctx of
                       (Inl e, ctx') \<Rightarrow> (Inl e, ctx')
                     | (Inr isAddrExists, ctx') \<Rightarrow>
                         if length allowedList > 0 \<and> \<not> isAddrExists
                         then (Inl ErrUnauthorized, ctx')
                         else if IsZero limitLeft
                         then (Inr \<lparr>Accept = True, Delete = True, Updated = None\<rparr>, ctx')
                         else (Inr \<lparr>Accept = True, Delete = False,
                                    Updated = Some \<lparr>SpendLimit = limitLeft,
                                                    AllowList = allowedList\<rparr>\<rparr>, ctx'))))"

subsection \<open>ValidateBasic\<close>

text \<open>
  The loop over the allow list with the map \<open>found\<close>: a key that is not in a Go map
  reads as \<open>false\<close>.
\<close>

fun duplicateLoop :: "(string \<rightharpoonup> bool) \<Rightarrow> string list \<Rightarrow> error option" where
  "duplicateLoop found [] = None"
| "duplicateLoop found (addr # rest) =
     (if found addr = Some True then Some ErrDuplicateEntry
      else duplicateLoop (found(addr \<mapsto> True)) rest)"

definition SendAuthorization_ValidateBasic :: "SendAuthorization \<Rightarrow> error option" where
  "SendAuthorization_ValidateBasic a =
     (if length (SpendLimit a) = 0 then Some ErrInvalidCoins
      else if \<not> IsAllPositive (SpendLimit a) then Some ErrInvalidCoins
      else duplicateLoop Map.empty (AllowList a))"

subsection \<open>NewSendAuthorization\<close>

text \<open>
  An account address is a byte string. The address codec is an interface; its method
  \<open>BytesToString\<close> is a parameter here, a function that returns the string or an
  error. \<open>toBech32Addresses\<close> panics with the error of the codec: \<open>Inl\<close> is that
  panic. The loop writes each string at its index into a slice made with the length of
  the input.
\<close>

type_synonym AccAddress = "8 word list"
type_synonym Codec = "AccAddress \<Rightarrow> error + string"

fun toBech32Loop :: "Codec \<Rightarrow> AccAddress list \<Rightarrow> nat \<Rightarrow> string list \<Rightarrow> error + string list" where
  "toBech32Loop addressCodec [] i allowedAddrs = Inr allowedAddrs"
| "toBech32Loop addressCodec (addr # rest) i allowedAddrs =
     (case addressCodec addr of
        Inl err \<Rightarrow> Inl err
      | Inr addrStr \<Rightarrow> toBech32Loop addressCodec rest (Suc i) (allowedAddrs[i := addrStr]))"

definition toBech32Addresses :: "AccAddress list \<Rightarrow> Codec \<Rightarrow> error + string list" where
  "toBech32Addresses allowed addressCodec =
     (if length allowed = 0 then Inr []
      else toBech32Loop addressCodec allowed 0 (replicate (length allowed) []))"

definition NewSendAuthorization ::
  "Coins \<Rightarrow> AccAddress list \<Rightarrow> Codec \<Rightarrow> error + SendAuthorization" where
  "NewSendAuthorization spendLimit allowed addressCodec =
     (case toBech32Addresses allowed addressCodec of
        Inl err \<Rightarrow> Inl err
      | Inr allowList \<Rightarrow> Inr \<lparr>SpendLimit = spendLimit, AllowList = allowList\<rparr>)"

subsection \<open>Notions used to state the properties\<close>

text \<open>
  \<open>entriesScanned toAddr xs\<close> is the number of entries of \<open>xs\<close> up to and
  including the first one equal to \<open>toAddr\<close>, or the length of \<open>xs\<close> when there is
  none. \<open>charged j ctx\<close> is the meter \<open>ctx\<close> after \<open>j\<close> charges of
  \<open>gasCostPerIteration\<close> each.
\<close>

fun entriesScanned :: "string \<Rightarrow> string list \<Rightarrow> nat" where
  "entriesScanned toAddr [] = 0"
| "entriesScanned toAddr (addr # rest) =
     (if addr = toAddr then 1 else Suc (entriesScanned toAddr rest))"

definition charged :: "nat \<Rightarrow> GasMeter \<Rightarrow> GasMeter" where
  "charged j ctx =
     ctx\<lparr>consumed := consumed ctx + j * unat gasCostPerIteration,
         charges := charges ctx @ replicate j gasCostPerIteration\<rparr>"

text \<open>
  \<open>acceptedSteps a steps\<close> runs a sequence of transfers, each with the execution
  context it is evaluated in, against the record \<open>a\<close>, as the dispatcher of grants
  does: a transfer that \<open>Accept\<close> rejects leaves the record as it is, a transfer that
  it accepts replaces the record by the successor of the response, and a response
  without a successor deletes the grant, after which nothing is evaluated. The result
  lists the accepted transfers in order, each with the record it was evaluated against
  and the response.
\<close>

fun acceptedSteps ::
  "SendAuthorization \<Rightarrow> (GasMeter \<times> MsgSend) list
     \<Rightarrow> (SendAuthorization \<times> MsgSend \<times> AcceptResponse) list" where
  "acceptedSteps a [] = []"
| "acceptedSteps a ((ctx, m) # rest) =
     (case fst (SendAuthorization_Accept a ctx (IsMsgSend m)) of
        Inl e \<Rightarrow> acceptedSteps a rest
      | Inr resp \<Rightarrow>
          (a, m, resp) #
            (case Updated resp of None \<Rightarrow> [] | Some a' \<Rightarrow> acceptedSteps a' rest))"

section \<open>Lemmas\<close>

subsection \<open>Amounts per denomination\<close>

lemma AmountOf_Nil [simp]: "AmountOf [] d = 0"
  by (simp add: AmountOf_def)

lemma AmountOf_Cons [simp]:
  "AmountOf (c # cs) d = (if fst c = d then snd c else 0) + AmountOf cs d"
  by (simp add: AmountOf_def)

lemma AmountOf_negative: "AmountOf (negative coins) d = - AmountOf coins d"
  by (induction coins) (simp_all add: negative_def)

lemma AmountOf_absent: "d \<notin> fst ` set coins \<Longrightarrow> AmountOf coins d = 0"
  by (induction coins) auto

lemma AmountOf_table:
  "distinct ds \<Longrightarrow>
   AmountOf (filter (\<lambda>c. snd c \<noteq> 0) (map (\<lambda>x. (x, f x)) ds)) d = (if d \<in> set ds then f d else 0)"
  by (induction ds) auto

lemma AmountOf_safeAdd: "AmountOf (safeAdd a b) d = AmountOf a d + AmountOf b d"
proof -
  let ?ds = "sort (remdups (map fst (a @ b)))"
  have dist: "distinct ?ds" by simp
  have "AmountOf (safeAdd a b) d = (if d \<in> set ?ds then AmountOf a d + AmountOf b d else 0)"
    unfolding safeAdd_def using AmountOf_table [OF dist] by simp
  moreover have "d \<notin> set ?ds \<Longrightarrow> AmountOf a d = 0 \<and> AmountOf b d = 0"
    by (simp add: AmountOf_absent image_Un)
  ultimately show ?thesis by auto
qed

lemma set_safeAdd:
  "set (safeAdd a b) =
     {(d, AmountOf a d + AmountOf b d) | d. d \<in> fst ` set (a @ b) \<and> AmountOf a d + AmountOf b d \<noteq> 0}"
  by (auto simp: safeAdd_def)

lemma safeAdd_entry_nonzero: "c \<in> set (safeAdd a b) \<Longrightarrow> snd c \<noteq> 0"
  by (simp add: safeAdd_def)

lemma safeAdd_entry_amount: "c \<in> set (safeAdd a b) \<Longrightarrow> snd c = AmountOf a (fst c) + AmountOf b (fst c)"
  by (auto simp: safeAdd_def)

lemma safeAdd_has_entry:
  assumes "AmountOf a d + AmountOf b d \<noteq> 0"
  shows "(d, AmountOf a d + AmountOf b d) \<in> set (safeAdd a b)"
proof -
  have "d \<in> fst ` set (a @ b)"
  proof (rule ccontr)
    assume "d \<notin> fst ` set (a @ b)"
    then have "AmountOf a d = 0" "AmountOf b d = 0"
      by (simp_all add: AmountOf_absent image_Un)
    with assms show False by simp
  qed
  with assms show ?thesis by (auto simp: set_safeAdd)
qed

lemma IsAnyNegative_safeAdd:
  "IsAnyNegative (safeAdd a b) \<longleftrightarrow> (\<exists>d. AmountOf a d + AmountOf b d < 0)"
proof
  assume "IsAnyNegative (safeAdd a b)"
  then obtain c where "c \<in> set (safeAdd a b)" "snd c < 0"
    by (auto simp: IsAnyNegative_def list_ex_iff)
  then show "\<exists>d. AmountOf a d + AmountOf b d < 0"
    using safeAdd_entry_amount by metis
next
  assume "\<exists>d. AmountOf a d + AmountOf b d < 0"
  then obtain d where d: "AmountOf a d + AmountOf b d < 0" by blast
  then have "(d, AmountOf a d + AmountOf b d) \<in> set (safeAdd a b)"
    by (intro safeAdd_has_entry) simp
  with d show "IsAnyNegative (safeAdd a b)"
    unfolding IsAnyNegative_def list_ex_iff by (intro bexI [of _ "(d, AmountOf a d + AmountOf b d)"]) simp_all
qed

lemma IsZero_safeAdd_Nil: "IsZero (safeAdd a b) \<longleftrightarrow> safeAdd a b = []"
proof
  assume z: "IsZero (safeAdd a b)"
  show "safeAdd a b = []"
  proof (cases "safeAdd a b")
    case (Cons c cs)
    then have "c \<in> set (safeAdd a b)" by simp
    with z safeAdd_entry_nonzero [of c a b] show ?thesis
      by (auto simp: IsZero_def list_all_iff)
  qed simp
qed (simp add: IsZero_def)

lemma IsZero_safeAdd:
  "IsZero (safeAdd a b) \<longleftrightarrow> (\<forall>d. AmountOf a d + AmountOf b d = 0)"
proof
  assume "IsZero (safeAdd a b)"
  then have "safeAdd a b = []" by (simp add: IsZero_safeAdd_Nil)
  then have "\<And>d. AmountOf (safeAdd a b) d = 0" by simp
  then show "\<forall>d. AmountOf a d + AmountOf b d = 0" by (simp add: AmountOf_safeAdd)
next
  assume "\<forall>d. AmountOf a d + AmountOf b d = 0"
  then show "IsZero (safeAdd a b)"
    by (auto simp: IsZero_def list_all_iff dest: safeAdd_entry_amount safeAdd_entry_nonzero)
qed

lemma SafeSub_negative_iff:
  "snd (SafeSub coins coinsB) \<longleftrightarrow> (\<exists>d. AmountOf coins d < AmountOf coinsB d)"
  by (simp add: SafeSub_def Let_def IsAnyNegative_safeAdd AmountOf_negative)

lemma SafeSub_AmountOf:
  "AmountOf (fst (SafeSub coins coinsB)) d = AmountOf coins d - AmountOf coinsB d"
  by (simp add: SafeSub_def Let_def AmountOf_safeAdd AmountOf_negative)

lemma SafeSub_IsZero_iff:
  "IsZero (fst (SafeSub coins coinsB)) \<longleftrightarrow> (\<forall>d. AmountOf coins d = AmountOf coinsB d)"
  by (simp add: SafeSub_def Let_def IsZero_safeAdd AmountOf_negative)



subsection \<open>The scan of the allow list\<close>

lemma unat_gasCost [simp]: "unat gasCostPerIteration = 10"
  by (simp add: gasCostPerIteration_def)

lemma charged_0 [simp]: "charged 0 ctx = ctx"
  by (simp add: charged_def)

lemma charged_fields [simp]:
  "limit (charged j ctx) = limit ctx"
  "consumed (charged j ctx) = consumed ctx + j * 10"
  "charges (charged j ctx) = charges ctx @ replicate j gasCostPerIteration"
  by (simp_all add: charged_def)

lemma charged_Suc: "charged j (charged 1 ctx) = charged (Suc j) ctx"
  by (simp add: charged_def)

lemma ConsumeGas_cost:
  "ConsumeGas gasCostPerIteration ctx =
     (if limit ctx < consumed ctx + 10 then Inl ErrorOutOfGas else Inr (), charged 1 ctx)"
  by (simp add: ConsumeGas_def Let_def charged_def)

lemma entriesScanned_absent: "toAddr \<notin> set xs \<Longrightarrow> entriesScanned toAddr xs = length xs"
  by (induction xs) auto

lemma entriesScanned_first:
  "i < length xs \<Longrightarrow> xs ! i = toAddr \<Longrightarrow> toAddr \<notin> set (take i xs) \<Longrightarrow>
   entriesScanned toAddr xs = Suc i"
proof (induction xs arbitrary: i)
  case Nil
  then show ?case by simp
next
  case (Cons x xs)
  show ?case
  proof (cases i)
    case 0
    with Cons.prems show ?thesis by simp
  next
    case (Suc k)
    with Cons.prems have "x \<noteq> toAddr" "k < length xs" "xs ! k = toAddr" "toAddr \<notin> set (take k xs)"
      by auto
    with Cons.IH [of k] Suc show ?thesis by simp
  qed
qed

lemma entriesScanned_pos: "xs \<noteq> [] \<Longrightarrow> 0 < entriesScanned toAddr xs"
  by (cases xs) auto

lemma allowListLoop_enough:
  "consumed ctx + entriesScanned toAddr xs * 10 \<le> limit ctx \<Longrightarrow>
   allowListLoop toAddr xs ctx = (Inr (toAddr \<in> set xs), charged (entriesScanned toAddr xs) ctx)"
proof (induction xs arbitrary: ctx)
  case Nil
  then show ?case by simp
next
  case (Cons x xs)
  show ?case
  proof (cases "x = toAddr")
    case True
    with Cons.prems show ?thesis by (simp add: ConsumeGas_cost)
  next
    case False
    with Cons.prems have "consumed (charged 1 ctx) + entriesScanned toAddr xs * 10 \<le> limit (charged 1 ctx)"
      by simp
    from Cons.IH [OF this] False Cons.prems show ?thesis
      by (simp add: ConsumeGas_cost charged_Suc)
  qed
qed

lemma allowListLoop_exhausted:
  "limit ctx < consumed ctx + entriesScanned toAddr xs * 10 \<Longrightarrow> xs \<noteq> [] \<Longrightarrow>
   allowListLoop toAddr xs ctx =
     (Inl ErrorOutOfGas, charged (Suc ((limit ctx - consumed ctx) div 10)) ctx)"
proof (induction xs arbitrary: ctx)
  case Nil
  then show ?case by simp
next
  case (Cons x xs)
  show ?case
  proof (cases "limit ctx < consumed ctx + 10")
    case True
    then have "(limit ctx - consumed ctx) div 10 = 0" by simp
    with True show ?thesis by (simp add: ConsumeGas_cost)
  next
    case False
    then have ge: "consumed ctx + 10 \<le> limit ctx" by simp
    with Cons.prems have neq: "x \<noteq> toAddr" by (auto split: if_splits)
    with Cons.prems have lt: "limit (charged 1 ctx) < consumed (charged 1 ctx) + entriesScanned toAddr xs * 10"
      by simp
    then have "xs \<noteq> []" using ge by (cases xs) auto
    from Cons.IH [OF lt this] have
      "allowListLoop toAddr xs (charged 1 ctx) =
         (Inl ErrorOutOfGas, charged (Suc (Suc ((limit ctx - (consumed ctx + 10)) div 10))) ctx)"
      by (simp add: charged_Suc)
    moreover have "Suc ((limit ctx - (consumed ctx + 10)) div 10) = (limit ctx - consumed ctx) div 10"
      using ge by (simp add: le_div_geq)
    ultimately show ?thesis using False neq by (simp add: ConsumeGas_cost)
  qed
qed

subsection \<open>Accept, case by case\<close>

lemma Accept_OtherMsg:
  "SendAuthorization_Accept a ctx (OtherMsg u) = (Inl ErrInvalidType, ctx)"
  by (simp add: SendAuthorization_Accept_def)

lemma Accept_IsMsgSend:
  "SendAuthorization_Accept a ctx (IsMsgSend m) =
     (if snd (SafeSub (SpendLimit a) (Amount m)) then (Inl ErrInsufficientFunds, ctx)
      else case allowListLoop (ToAddress m) (AllowList a) ctx of
             (Inl e, ctx') \<Rightarrow> (Inl e, ctx')
           | (Inr isAddrExists, ctx') \<Rightarrow>
               if AllowList a \<noteq> [] \<and> \<not> isAddrExists then (Inl ErrUnauthorized, ctx')
               else if IsZero (fst (SafeSub (SpendLimit a) (Amount m)))
               then (Inr \<lparr>Accept = True, Delete = True, Updated = None\<rparr>, ctx')
               else (Inr \<lparr>Accept = True, Delete = False,
                          Updated = Some \<lparr>SpendLimit = fst (SafeSub (SpendLimit a) (Amount m)),
                                          AllowList = AllowList a\<rparr>\<rparr>, ctx'))"
  by (simp add: SendAuthorization_Accept_def GetAllowList_def case_prod_unfold Let_def
      split: sum.split)

lemma Accept_negative:
  "snd (SafeSub (SpendLimit a) (Amount m)) \<Longrightarrow>
   SendAuthorization_Accept a ctx (IsMsgSend m) = (Inl ErrInsufficientFunds, ctx)"
  by (simp add: Accept_IsMsgSend)

lemma Accept_enough:
  assumes "\<not> snd (SafeSub (SpendLimit a) (Amount m))"
    and "consumed ctx + entriesScanned (ToAddress m) (AllowList a) * 10 \<le> limit ctx"
  shows "SendAuthorization_Accept a ctx (IsMsgSend m) =
     (if AllowList a \<noteq> [] \<and> ToAddress m \<notin> set (AllowList a) then Inl ErrUnauthorized
      else if IsZero (fst (SafeSub (SpendLimit a) (Amount m)))
      then Inr \<lparr>Accept = True, Delete = True, Updated = None\<rparr>
      else Inr \<lparr>Accept = True, Delete = False,
                Updated = Some \<lparr>SpendLimit = fst (SafeSub (SpendLimit a) (Amount m)),
                                AllowList = AllowList a\<rparr>\<rparr>,
      charged (entriesScanned (ToAddress m) (AllowList a)) ctx)"
  using assms
  by (simp add: Accept_IsMsgSend allowListLoop_enough)

lemma Accept_exhausted:
  assumes "\<not> snd (SafeSub (SpendLimit a) (Amount m))"
    and "limit ctx < consumed ctx + entriesScanned (ToAddress m) (AllowList a) * 10"
    and "AllowList a \<noteq> []"
  shows "SendAuthorization_Accept a ctx (IsMsgSend m) =
     (Inl ErrorOutOfGas, charged (Suc ((limit ctx - consumed ctx) div 10)) ctx)"
  using assms
  by (simp add: Accept_IsMsgSend allowListLoop_exhausted)

lemma Accept_empty_list:
  assumes "AllowList a = []"
  shows "SendAuthorization_Accept a ctx (IsMsgSend m) =
     (if snd (SafeSub (SpendLimit a) (Amount m)) then Inl ErrInsufficientFunds
      else if IsZero (fst (SafeSub (SpendLimit a) (Amount m)))
      then Inr \<lparr>Accept = True, Delete = True, Updated = None\<rparr>
      else Inr \<lparr>Accept = True, Delete = False,
                Updated = Some \<lparr>SpendLimit = fst (SafeSub (SpendLimit a) (Amount m)),
                                AllowList = []\<rparr>\<rparr>,
      ctx)"
  using assms
  by (simp add: Accept_IsMsgSend)

subsection \<open>Evaluation and the errors of Accept\<close>

text \<open>The definitions that evaluate \<open>Accept\<close> on a concrete input.\<close>

lemmas eval_defs =
  SendAuthorization_Accept_def SafeSub_def safeAdd_def negative_def IsAnyNegative_def
  GetAllowList_def ConsumeGas_def gasCostPerIteration_def IsZero_def

lemma allowListLoop_error:
  "allowListLoop toAddr xs ctx = (Inl e, ctx') \<Longrightarrow> e = ErrorOutOfGas"
  by (induction xs arbitrary: ctx) (auto simp: ConsumeGas_cost split: if_splits)

lemma Accept_error:
  assumes "SendAuthorization_Accept a ctx msg = (Inl e, ctx')"
  shows "e \<in> {ErrInvalidType, ErrInsufficientFunds, ErrorOutOfGas, ErrUnauthorized}"
proof (cases msg)
  case (OtherMsg u)
  with assms show ?thesis by (simp add: Accept_OtherMsg)
next
  case (IsMsgSend m)
  with assms show ?thesis
    by (auto simp: Accept_IsMsgSend split: if_splits prod.splits sum.splits
        dest: allowListLoop_error)
qed

lemma allowListLoop_meter:
  "snd (allowListLoop toAddr xs ctx) =
     charged (min (entriesScanned toAddr xs) (Suc ((limit ctx - consumed ctx) div 10))) ctx"
proof (cases "consumed ctx + entriesScanned toAddr xs * 10 \<le> limit ctx")
  case True
  then have "entriesScanned toAddr xs \<le> (limit ctx - consumed ctx) div 10"
    by (simp add: less_eq_div_iff_mult_less_eq)
  then have "min (entriesScanned toAddr xs) (Suc ((limit ctx - consumed ctx) div 10))
             = entriesScanned toAddr xs"
    by simp
  with True show ?thesis by (simp add: allowListLoop_enough)
next
  case False
  show ?thesis
  proof (cases xs)
    case Nil
    then show ?thesis by simp
  next
    case (Cons y ys)
    then have ne: "xs \<noteq> []" by simp
    from False have lt: "limit ctx < consumed ctx + entriesScanned toAddr xs * 10" by simp
    have "(limit ctx - consumed ctx) div 10 < entriesScanned toAddr xs"
    proof (cases "consumed ctx \<le> limit ctx")
      case True
      with lt have "limit ctx - consumed ctx < entriesScanned toAddr xs * 10" by simp
      then show ?thesis by (simp add: div_less_iff_less_mult)
    next
      case False
      then show ?thesis using entriesScanned_pos [OF ne] by simp
    qed
    then have "min (entriesScanned toAddr xs) (Suc ((limit ctx - consumed ctx) div 10))
               = Suc ((limit ctx - consumed ctx) div 10)"
      by simp
    with lt ne show ?thesis by (simp add: allowListLoop_exhausted)
  qed
qed

subsection \<open>Accepted transfers\<close>

lemma Accept_accepted:
  assumes "fst (SendAuthorization_Accept a ctx (IsMsgSend m)) = Inr resp"
  shows "\<not> snd (SafeSub (SpendLimit a) (Amount m))"
    and "resp = (if IsZero (fst (SafeSub (SpendLimit a) (Amount m)))
                 then \<lparr>Accept = True, Delete = True, Updated = None\<rparr>
                 else \<lparr>Accept = True, Delete = False,
                       Updated = Some \<lparr>SpendLimit = fst (SafeSub (SpendLimit a) (Amount m)),
                                       AllowList = AllowList a\<rparr>\<rparr>)"
  using assms
  by (auto simp: Accept_IsMsgSend split: if_splits prod.splits sum.splits)

subsection \<open>Validation\<close>

lemma duplicateLoop_result:
  "duplicateLoop found xs =
     (if (\<exists>x \<in> set xs. found x = Some True) \<or> \<not> distinct xs
      then Some ErrDuplicateEntry else None)"
proof (induction xs arbitrary: found)
  case Nil
  then show ?case by simp
next
  case (Cons x xs)
  show ?case
  proof (cases "found x = Some True")
    case True
    then show ?thesis by simp
  next
    case False
    have eq: "(\<exists>y \<in> set xs. (found(x \<mapsto> True)) y = Some True)
          \<longleftrightarrow> x \<in> set xs \<or> (\<exists>y \<in> set xs. found y = Some True)"
      by auto
    have "duplicateLoop found (x # xs) = duplicateLoop (found(x \<mapsto> True)) xs"
      using False by simp
    also have "\<dots> = (if (x \<in> set xs \<or> (\<exists>y \<in> set xs. found y = Some True)) \<or> \<not> distinct xs
                      then Some ErrDuplicateEntry else None)"
      by (simp only: Cons.IH eq)
    also have "\<dots> = (if (\<exists>y \<in> set (x # xs). found y = Some True) \<or> \<not> distinct (x # xs)
                      then Some ErrDuplicateEntry else None)"
      using False by auto
    finally show ?thesis .
  qed
qed

lemma IsAllPositive_iff:
  "IsAllPositive coins \<longleftrightarrow> coins \<noteq> [] \<and> (\<forall>c \<in> set coins. 0 < snd c)"
  by (simp add: IsAllPositive_def list_all_iff)

lemma ValidateBasic_unfold:
  "SendAuthorization_ValidateBasic a =
     (if SpendLimit a = [] \<or> (\<exists>c \<in> set (SpendLimit a). snd c \<le> 0) then Some ErrInvalidCoins
      else if \<not> distinct (AllowList a) then Some ErrDuplicateEntry
      else None)"
  by (auto simp: SendAuthorization_ValidateBasic_def IsAllPositive_iff duplicateLoop_result
      not_less)

lemma ValidateBasic_None_iff:
  "SendAuthorization_ValidateBasic a = None \<longleftrightarrow>
     SpendLimit a \<noteq> [] \<and> (\<forall>c \<in> set (SpendLimit a). 0 < snd c) \<and> distinct (AllowList a)"
proof -
  have "(\<exists>c \<in> set (SpendLimit a). snd c \<le> 0) \<longleftrightarrow> \<not> (\<forall>c \<in> set (SpendLimit a). 0 < snd c)"
    by (auto simp: not_less)
  then show ?thesis by (simp add: ValidateBasic_unfold)
qed

subsection \<open>The conversion of the allowed addresses\<close>

lemma toBech32Loop_ok:
  "i + length xs \<le> length acc \<Longrightarrow> \<forall>x \<in> set xs. \<exists>s. addressCodec x = Inr s \<Longrightarrow>
   toBech32Loop addressCodec xs i acc =
     Inr (take i acc @ map (\<lambda>x. projr (addressCodec x)) xs @ drop (i + length xs) acc)"
proof (induction xs arbitrary: i acc)
  case Nil
  then show ?case by simp
next
  case (Cons x xs)
  from Cons.prems obtain s where s: "addressCodec x = Inr s" by auto
  from Cons.prems have i: "i < length acc" by simp
  have t: "take (Suc i) (acc[i := s]) = take i acc @ [s]"
    using i by (simp add: take_Suc_conv_app_nth)
  have d: "drop (Suc i + length xs) (acc[i := s]) = drop (Suc i + length xs) acc"
    by simp
  from Cons.prems have "Suc i + length xs \<le> length (acc[i := s])"
    and "\<forall>x \<in> set xs. \<exists>s. addressCodec x = Inr s"
    by simp_all
  from Cons.IH [OF this] s show ?case by (simp add: t d)
qed

lemma toBech32Loop_panic:
  "\<exists>x \<in> set xs. \<exists>e. addressCodec x = Inl e \<Longrightarrow>
   \<exists>e. toBech32Loop addressCodec xs i acc = Inl e"
proof (induction xs arbitrary: i acc)
  case Nil
  then show ?case by simp
next
  case (Cons x xs)
  show ?case
  proof (cases "addressCodec x")
    case (Inl e)
    then show ?thesis by simp
  next
    case (Inr s)
    with Cons.prems have "\<exists>x \<in> set xs. \<exists>e. addressCodec x = Inl e" by auto
    from Cons.IH [OF this] Inr show ?thesis by simp
  qed
qed

lemma toBech32Addresses_result:
  "toBech32Addresses allowed addressCodec = Inr ys \<longleftrightarrow>
     (\<forall>x \<in> set allowed. \<exists>s. addressCodec x = Inr s)
     \<and> ys = map (\<lambda>x. projr (addressCodec x)) allowed"
proof (cases "\<forall>x \<in> set allowed. \<exists>s. addressCodec x = Inr s")
  case True
  have "toBech32Loop addressCodec allowed 0 (replicate (length allowed) []) =
          Inr (map (\<lambda>x. projr (addressCodec x)) allowed)"
    using toBech32Loop_ok [of 0 allowed "replicate (length allowed) []" addressCodec] True
    by simp
  with True show ?thesis by (auto simp: toBech32Addresses_def)
next
  case False
  then obtain x where "x \<in> set allowed" "\<forall>s. addressCodec x \<noteq> Inr s" by blast
  then have bad: "\<exists>x \<in> set allowed. \<exists>e. addressCodec x = Inl e"
    by (metis sum.exhaust)
  then have "allowed \<noteq> []" by auto
  with toBech32Loop_panic [OF bad, of 0 "replicate (length allowed) []"] False
  show ?thesis by (auto simp: toBech32Addresses_def)
qed

subsection \<open>Sequences of transfers\<close>

lemma AmountOf_nonneg: "\<forall>c \<in> set coins. 0 \<le> snd c \<Longrightarrow> 0 \<le> AmountOf coins d"
  by (induction coins) auto

lemma Accept_successor_le:
  assumes "fst (SendAuthorization_Accept a ctx (IsMsgSend m)) = Inr resp"
    and "Updated resp = Some a'"
    and "\<forall>c \<in> set (Amount m). 0 \<le> snd c"
  shows "AmountOf (SpendLimit a') d \<le> AmountOf (SpendLimit a) d"
proof -
  from Accept_accepted(2) [OF assms(1)] assms(2)
  have "SpendLimit a' = fst (SafeSub (SpendLimit a) (Amount m))"
    by (auto split: if_splits)
  then have "AmountOf (SpendLimit a') d = AmountOf (SpendLimit a) d - AmountOf (Amount m) d"
    by (simp add: SafeSub_AmountOf)
  with AmountOf_nonneg [OF assms(3), of d] show ?thesis by simp
qed

lemma acceptedSteps_member:
  assumes "(b, m, resp) \<in> set (acceptedSteps a steps)"
    and "\<forall>s \<in> set steps. \<forall>c \<in> set (Amount (snd s)). 0 \<le> snd c"
  shows "(\<forall>d. AmountOf (SpendLimit b) d \<le> AmountOf (SpendLimit a) d)
       \<and> (\<exists>ctx. (ctx, m) \<in> set steps
                 \<and> fst (SendAuthorization_Accept b ctx (IsMsgSend m)) = Inr resp)"
  using assms
proof (induction steps arbitrary: a)
  case Nil
  then show ?case by simp
next
  case (Cons s rest)
  obtain ctx m0 where s: "s = (ctx, m0)" by (cases s)
  from Cons.prems(2) have nn: "\<forall>c \<in> set (Amount m0). 0 \<le> snd c"
    and rest: "\<forall>s \<in> set rest. \<forall>c \<in> set (Amount (snd s)). 0 \<le> snd c"
    by (simp_all add: s)
  show ?case
  proof (cases "fst (SendAuthorization_Accept a ctx (IsMsgSend m0))")
    case (Inl e)
    with Cons.prems(1) s have "(b, m, resp) \<in> set (acceptedSteps a rest)" by simp
    from Cons.IH [OF this rest] show ?thesis by auto
  next
    case (Inr r)
    show ?thesis
    proof (cases "(b, m, resp) = (a, m0, r)")
      case True
      with Inr s show ?thesis by auto
    next
      case False
      with Cons.prems(1) s Inr
      have "\<exists>a'. Updated r = Some a' \<and> (b, m, resp) \<in> set (acceptedSteps a' rest)"
        by (cases "Updated r") auto
      then obtain a' where upd: "Updated r = Some a'"
        and mem: "(b, m, resp) \<in> set (acceptedSteps a' rest)"
        by blast
      from Cons.IH [OF mem rest]
      have le: "\<forall>d. AmountOf (SpendLimit b) d \<le> AmountOf (SpendLimit a') d"
        and ex: "\<exists>ctx. (ctx, m) \<in> set rest
                 \<and> fst (SendAuthorization_Accept b ctx (IsMsgSend m)) = Inr resp"
        by simp_all
      have "\<forall>d. AmountOf (SpendLimit a') d \<le> AmountOf (SpendLimit a) d"
        using Accept_successor_le [OF Inr upd nn] by simp
      with le have "\<forall>d. AmountOf (SpendLimit b) d \<le> AmountOf (SpendLimit a) d"
        by (meson order_trans)
      with ex show ?thesis by auto
    qed
  qed
qed

section \<open>The properties\<close>

subsection \<open>C1: no over-spend\<close>

text \<open>
  C1. No over-spend: a transfer that asks, in some denomination, for more than the spend
  limit holds in that denomination, or for a positive amount of a denomination that has
  no entry in the spend limit, is rejected with \<open>ErrInsufficientFunds\<close>. The
  rejection carries no successor record and no deletion signal, and the gas meter is
  not charged: nothing of the subtraction is applied.
\<close>

theorem Accept_no_over_spend:
  assumes "AmountOf (SpendLimit a) d < AmountOf (Amount m) d
           \<or> (d \<notin> fst ` set (SpendLimit a) \<and> 0 < AmountOf (Amount m) d)"
  shows "SendAuthorization_Accept a ctx (IsMsgSend m) = (Inl ErrInsufficientFunds, ctx)"
proof -
  from assms have "AmountOf (SpendLimit a) d < AmountOf (Amount m) d"
    by (auto simp: AmountOf_absent)
  then have "snd (SafeSub (SpendLimit a) (Amount m))"
    unfolding SafeSub_negative_iff by blast
  then show ?thesis by (rule Accept_negative)
qed

theorem Accept_no_over_spend_witness:
  "AmountOf [(''atom'', 100)] ''atom'' < AmountOf [(''atom'', 150)] ''atom''
   \<and> ''btc'' \<notin> fst ` set [(''atom'', 100 :: int)] \<and> 0 < AmountOf [(''btc'', 1)] ''btc''
   \<and> SendAuthorization_Accept \<lparr>SpendLimit = [(''atom'', 100)], AllowList = []\<rparr>
        \<lparr>limit = 1000, consumed = 0, charges = []\<rparr>
        (IsMsgSend \<lparr>ToAddress = ''Z'', Amount = [(''atom'', 150)]\<rparr>)
      = (Inl ErrInsufficientFunds, \<lparr>limit = 1000, consumed = 0, charges = []\<rparr>)
   \<and> SendAuthorization_Accept \<lparr>SpendLimit = [(''atom'', 100)], AllowList = []\<rparr>
        \<lparr>limit = 1000, consumed = 0, charges = []\<rparr>
        (IsMsgSend \<lparr>ToAddress = ''Z'', Amount = [(''btc'', 1)]\<rparr>)
      = (Inl ErrInsufficientFunds, \<lparr>limit = 1000, consumed = 0, charges = []\<rparr>)"
  using Accept_no_over_spend
      [of "\<lparr>SpendLimit = [(''atom'', 100)], AllowList = []\<rparr>" "''atom''"
          "\<lparr>ToAddress = ''Z'', Amount = [(''atom'', 150)]\<rparr>"
          "\<lparr>limit = 1000, consumed = 0, charges = []\<rparr>"]
    Accept_no_over_spend
      [of "\<lparr>SpendLimit = [(''atom'', 100)], AllowList = []\<rparr>" "''btc''"
          "\<lparr>ToAddress = ''Z'', Amount = [(''btc'', 1)]\<rparr>"
          "\<lparr>limit = 1000, consumed = 0, charges = []\<rparr>"]
  by simp

subsection \<open>C2: the allow list\<close>

text \<open>
  C2, as the specification states it: with a non-empty allow list, every transfer within
  the limit whose recipient is not in the list is rejected with \<open>ErrUnauthorized\<close>.
  This fails where the gas meter cannot be charged the whole scan: with a budget of 15
  units and two entries, the second charge exceeds the budget and the evaluation is
  aborted with \<open>ErrorOutOfGas\<close> before the recipient is found to be missing.
\<close>

theorem Accept_allow_list_counterexample:
  "AllowList \<lparr>SpendLimit = [(''atom'', 50)], AllowList = [''A'', ''B'']\<rparr> \<noteq> []
   \<and> \<not> snd (SafeSub [(''atom'', 50)] [(''atom'', 10)])
   \<and> ''C'' \<notin> set [''A'', ''B'']
   \<and> fst (SendAuthorization_Accept
            \<lparr>SpendLimit = [(''atom'', 50)], AllowList = [''A'', ''B'']\<rparr>
            \<lparr>limit = 15, consumed = 0, charges = []\<rparr>
            (IsMsgSend \<lparr>ToAddress = ''C'', Amount = [(''atom'', 10)]\<rparr>))
       \<noteq> Inl ErrUnauthorized"
  by (simp add: eval_defs)

text \<open>
  C2, amended: with a non-empty allow list, a transfer within the limit whose recipient
  is not in the list is rejected with \<open>ErrUnauthorized\<close> when the budget of the gas
  meter covers one charge per entry of the list, and is aborted with \<open>ErrorOutOfGas\<close>
  otherwise; in neither case is it accepted. With an empty allow list \<open>Accept\<close> never
  returns \<open>ErrUnauthorized\<close>, whatever the message and the recipient: a transfer is
  rejected with \<open>ErrInsufficientFunds\<close> when it exceeds the limit and accepted, with no
  charge to the meter, when it does not.
\<close>

theorem Accept_allow_list:
  "(AllowList a \<noteq> [] \<and> \<not> snd (SafeSub (SpendLimit a) (Amount m))
      \<and> ToAddress m \<notin> set (AllowList a) \<longrightarrow>
      fst (SendAuthorization_Accept a ctx (IsMsgSend m)) =
        (if consumed ctx + length (AllowList a) * unat gasCostPerIteration \<le> limit ctx
         then Inl ErrUnauthorized else Inl ErrorOutOfGas))
   \<and> (AllowList a = [] \<longrightarrow>
        fst (SendAuthorization_Accept a ctx msg) \<noteq> Inl ErrUnauthorized
        \<and> (snd (SafeSub (SpendLimit a) (Amount m)) \<longrightarrow>
             SendAuthorization_Accept a ctx (IsMsgSend m) = (Inl ErrInsufficientFunds, ctx))
        \<and> (\<not> snd (SafeSub (SpendLimit a) (Amount m)) \<longrightarrow>
             (\<exists>resp. SendAuthorization_Accept a ctx (IsMsgSend m) = (Inr resp, ctx)
                     \<and> Accept resp)))"
proof (intro conjI impI)
  assume h: "AllowList a \<noteq> [] \<and> \<not> snd (SafeSub (SpendLimit a) (Amount m))
      \<and> ToAddress m \<notin> set (AllowList a)"
  then have n: "entriesScanned (ToAddress m) (AllowList a) = length (AllowList a)"
    by (simp add: entriesScanned_absent)
  show "fst (SendAuthorization_Accept a ctx (IsMsgSend m)) =
        (if consumed ctx + length (AllowList a) * unat gasCostPerIteration \<le> limit ctx
         then Inl ErrUnauthorized else Inl ErrorOutOfGas)"
  proof (cases "consumed ctx + length (AllowList a) * 10 \<le> limit ctx")
    case True
    with h n show ?thesis by (simp add: Accept_enough)
  next
    case False
    with h n show ?thesis by (simp add: Accept_exhausted)
  qed
next
  assume e: "AllowList a = []"
  show "fst (SendAuthorization_Accept a ctx msg) \<noteq> Inl ErrUnauthorized"
  proof (cases msg)
    case (OtherMsg u)
    then show ?thesis by (simp add: Accept_OtherMsg)
  next
    case (IsMsgSend m')
    with e show ?thesis by (simp add: Accept_empty_list)
  qed
next
  assume "AllowList a = []" and "snd (SafeSub (SpendLimit a) (Amount m))"
  then show "SendAuthorization_Accept a ctx (IsMsgSend m) = (Inl ErrInsufficientFunds, ctx)"
    by (simp add: Accept_empty_list)
next
  assume "AllowList a = []" and "\<not> snd (SafeSub (SpendLimit a) (Amount m))"
  then show "\<exists>resp. SendAuthorization_Accept a ctx (IsMsgSend m) = (Inr resp, ctx) \<and> Accept resp"
    by (simp add: Accept_empty_list)
qed

theorem Accept_allow_list_witness:
  "AllowList \<lparr>SpendLimit = [(''atom'', 50)], AllowList = [''A'', ''B'']\<rparr> \<noteq> []
   \<and> \<not> snd (SafeSub [(''atom'', 50)] [(''atom'', 10)])
   \<and> ''C'' \<notin> set [''A'', ''B'']
   \<and> fst (SendAuthorization_Accept
            \<lparr>SpendLimit = [(''atom'', 50)], AllowList = [''A'', ''B'']\<rparr>
            \<lparr>limit = 20, consumed = 0, charges = []\<rparr>
            (IsMsgSend \<lparr>ToAddress = ''C'', Amount = [(''atom'', 10)]\<rparr>))
       = Inl ErrUnauthorized
   \<and> AllowList \<lparr>SpendLimit = [(''atom'', 50)], AllowList = []\<rparr> = []
   \<and> (\<exists>resp. SendAuthorization_Accept
            \<lparr>SpendLimit = [(''atom'', 50)], AllowList = []\<rparr>
            \<lparr>limit = 0, consumed = 0, charges = []\<rparr>
            (IsMsgSend \<lparr>ToAddress = ''C'', Amount = [(''atom'', 10)]\<rparr>)
          = (Inr resp, \<lparr>limit = 0, consumed = 0, charges = []\<rparr>) \<and> Accept resp)"
  using Accept_allow_list
      [of "\<lparr>SpendLimit = [(''atom'', 50)], AllowList = [''A'', ''B'']\<rparr>"
          "\<lparr>ToAddress = ''C'', Amount = [(''atom'', 10)]\<rparr>"
          "\<lparr>limit = 20, consumed = 0, charges = []\<rparr>"]
    Accept_allow_list
      [of "\<lparr>SpendLimit = [(''atom'', 50)], AllowList = []\<rparr>"
          "\<lparr>ToAddress = ''C'', Amount = [(''atom'', 10)]\<rparr>"
          "\<lparr>limit = 0, consumed = 0, charges = []\<rparr>"]
  by (simp add: SafeSub_def safeAdd_def negative_def IsAnyNegative_def)

subsection \<open>C4: the order of the checks\<close>

text \<open>
  C4, as the specification states it: every evaluation ends in exactly one of the four
  outcomes \<open>ErrInvalidType\<close>, \<open>ErrInsufficientFunds\<close>, \<open>ErrUnauthorized\<close> and
  success. This fails for a transfer within the limit, to a recipient of the allow list,
  in a context whose gas meter has 5 units left: the first charge of the scan aborts the
  evaluation, which ends in an error that is none of the three.
\<close>

theorem Accept_outcomes_counterexample:
  "isl (fst (SendAuthorization_Accept
          \<lparr>SpendLimit = [(''atom'', 50)], AllowList = [''B'']\<rparr>
          \<lparr>limit = 5, consumed = 0, charges = []\<rparr>
          (IsMsgSend \<lparr>ToAddress = ''B'', Amount = [(''atom'', 10)]\<rparr>)))
   \<and> fst (SendAuthorization_Accept
          \<lparr>SpendLimit = [(''atom'', 50)], AllowList = [''B'']\<rparr>
          \<lparr>limit = 5, consumed = 0, charges = []\<rparr>
          (IsMsgSend \<lparr>ToAddress = ''B'', Amount = [(''atom'', 10)]\<rparr>))
       \<notin> {Inl ErrInvalidType, Inl ErrInsufficientFunds, Inl ErrUnauthorized}"
  by (simp add: eval_defs)

text \<open>
  C4, amended: every evaluation ends in exactly one of five outcomes, decided in this
  order: \<open>ErrInvalidType\<close> for a message that is not a \<open>MsgSend\<close>;
  \<open>ErrInsufficientFunds\<close> when the subtraction from the spend limit is negative;
  \<open>ErrorOutOfGas\<close> when the allow list is not empty and the budget of the gas meter
  does not cover the entries scanned; \<open>ErrUnauthorized\<close> when the allow list is not
  empty and does not hold the recipient; the accepting response otherwise. The errors of
  validation, \<open>ErrInvalidCoins\<close> and \<open>ErrDuplicateEntry\<close>, are never returned.
\<close>

theorem Accept_outcomes:
  "fst (SendAuthorization_Accept a ctx msg) =
     (case msg of
        OtherMsg u \<Rightarrow> Inl ErrInvalidType
      | IsMsgSend m \<Rightarrow>
          if snd (SafeSub (SpendLimit a) (Amount m)) then Inl ErrInsufficientFunds
          else if AllowList a \<noteq> []
                  \<and> limit ctx < consumed ctx
                       + entriesScanned (ToAddress m) (AllowList a) * unat gasCostPerIteration
          then Inl ErrorOutOfGas
          else if AllowList a \<noteq> [] \<and> ToAddress m \<notin> set (AllowList a)
          then Inl ErrUnauthorized
          else if IsZero (fst (SafeSub (SpendLimit a) (Amount m)))
          then Inr \<lparr>Accept = True, Delete = True, Updated = None\<rparr>
          else Inr \<lparr>Accept = True, Delete = False,
                    Updated = Some \<lparr>SpendLimit = fst (SafeSub (SpendLimit a) (Amount m)),
                                    AllowList = AllowList a\<rparr>\<rparr>)
   \<and> fst (SendAuthorization_Accept a ctx msg) \<noteq> Inl ErrInvalidCoins
   \<and> fst (SendAuthorization_Accept a ctx msg) \<noteq> Inl ErrDuplicateEntry"
proof (intro conjI)
  show "fst (SendAuthorization_Accept a ctx msg) \<noteq> Inl ErrInvalidCoins"
    using Accept_error [of a ctx msg ErrInvalidCoins "snd (SendAuthorization_Accept a ctx msg)"]
    by (auto simp: prod_eq_iff)
  show "fst (SendAuthorization_Accept a ctx msg) \<noteq> Inl ErrDuplicateEntry"
    using Accept_error [of a ctx msg ErrDuplicateEntry "snd (SendAuthorization_Accept a ctx msg)"]
    by (auto simp: prod_eq_iff)
next
  show "fst (SendAuthorization_Accept a ctx msg) =
     (case msg of
        OtherMsg u \<Rightarrow> Inl ErrInvalidType
      | IsMsgSend m \<Rightarrow>
          if snd (SafeSub (SpendLimit a) (Amount m)) then Inl ErrInsufficientFunds
          else if AllowList a \<noteq> []
                  \<and> limit ctx < consumed ctx
                       + entriesScanned (ToAddress m) (AllowList a) * unat gasCostPerIteration
          then Inl ErrorOutOfGas
          else if AllowList a \<noteq> [] \<and> ToAddress m \<notin> set (AllowList a)
          then Inl ErrUnauthorized
          else if IsZero (fst (SafeSub (SpendLimit a) (Amount m)))
          then Inr \<lparr>Accept = True, Delete = True, Updated = None\<rparr>
          else Inr \<lparr>Accept = True, Delete = False,
                    Updated = Some \<lparr>SpendLimit = fst (SafeSub (SpendLimit a) (Amount m)),
                                    AllowList = AllowList a\<rparr>\<rparr>)"
  proof (cases msg)
    case (OtherMsg u)
    then show ?thesis by (simp add: Accept_OtherMsg)
  next
    case (IsMsgSend m)
    show ?thesis
    proof (cases "snd (SafeSub (SpendLimit a) (Amount m))")
      case True
      with IsMsgSend show ?thesis by (simp add: Accept_negative)
    next
      case valid: False
      show ?thesis
      proof (cases "AllowList a = []")
        case True
        with IsMsgSend valid show ?thesis by (simp add: Accept_empty_list)
      next
        case ne: False
        show ?thesis
        proof (cases "consumed ctx + entriesScanned (ToAddress m) (AllowList a) * 10 \<le> limit ctx")
          case True
          with IsMsgSend valid ne show ?thesis by (simp add: Accept_enough)
        next
          case False
          with IsMsgSend valid ne show ?thesis by (simp add: Accept_exhausted)
        qed
      qed
    qed
  qed
qed

theorem Accept_outcomes_witness:
  "fst (SendAuthorization_Accept
          \<lparr>SpendLimit = [(''atom'', 50)], AllowList = [''B'']\<rparr>
          \<lparr>limit = 10, consumed = 0, charges = []\<rparr>
          (IsMsgSend \<lparr>ToAddress = ''B'', Amount = [(''atom'', 10)]\<rparr>))
     = Inr \<lparr>Accept = True, Delete = False,
            Updated = Some \<lparr>SpendLimit = [(''atom'', 40)], AllowList = [''B'']\<rparr>\<rparr>
   \<and> fst (SendAuthorization_Accept
          \<lparr>SpendLimit = [(''atom'', 50)], AllowList = [''B'']\<rparr>
          \<lparr>limit = 10, consumed = 0, charges = []\<rparr>
          (OtherMsg ''/cosmos.bank.v1beta1.MsgMultiSend''))
     = Inl ErrInvalidType"
  using Accept_outcomes
      [of "\<lparr>SpendLimit = [(''atom'', 50)], AllowList = [''B'']\<rparr>"
          "\<lparr>limit = 10, consumed = 0, charges = []\<rparr>"
          "IsMsgSend \<lparr>ToAddress = ''B'', Amount = [(''atom'', 10)]\<rparr>"]
    Accept_outcomes
      [of "\<lparr>SpendLimit = [(''atom'', 50)], AllowList = [''B'']\<rparr>"
          "\<lparr>limit = 10, consumed = 0, charges = []\<rparr>"
          "OtherMsg ''/cosmos.bank.v1beta1.MsgMultiSend''"]
  by (simp add: SafeSub_def safeAdd_def negative_def IsAnyNegative_def IsZero_def)

subsection \<open>C5: metering\<close>

text \<open>
  C5, as the specification states it: a transfer within the limit whose recipient is not
  in a list of \<open>k\<close> entries is charged exactly \<open>k\<close> times. This fails where the
  budget runs out during the scan: with 5 units left and two entries, the meter is
  charged once, the charge that aborts the evaluation.
\<close>

theorem Accept_metering_counterexample:
  "\<not> snd (SafeSub [(''atom'', 50)] [(''atom'', 10)])
   \<and> [''A'', ''B''] \<noteq> [] \<and> ''C'' \<notin> set [''A'', ''B'']
   \<and> charges (snd (SendAuthorization_Accept
        \<lparr>SpendLimit = [(''atom'', 50)], AllowList = [''A'', ''B'']\<rparr>
        \<lparr>limit = 5, consumed = 0, charges = []\<rparr>
        (IsMsgSend \<lparr>ToAddress = ''C'', Amount = [(''atom'', 10)]\<rparr>)))
     = replicate 1 gasCostPerIteration
   \<and> replicate 1 gasCostPerIteration
       \<noteq> [] @ replicate (length [''A'', ''B'']) gasCostPerIteration"
  by (simp add: eval_defs)

text \<open>
  C5, amended: where the budget of the gas meter covers them, a transfer within the
  limit is charged \<open>gasCostPerIteration\<close> exactly \<open>k\<close> times when the recipient is
  not in the list of \<open>k\<close> entries, and exactly \<open>j\<close> times when the first
  occurrence of the recipient is the \<open>j\<close>-th entry (index \<open>i = j - 1\<close>, counting
  from zero). Whatever the budget, the number of charges is the number of entries up to
  the first match, or the number of charges up to the first one that exceeds the budget
  if that is smaller: the scan stops at a match or at an exhausted budget, never at a
  mismatch. The meter is left as it was when the allow list is empty, when the message is
  not a \<open>MsgSend\<close> and when the transfer exceeds the limit.
\<close>

theorem Accept_metering:
  "(\<not> snd (SafeSub (SpendLimit a) (Amount m)) \<and> AllowList a \<noteq> []
      \<and> ToAddress m \<notin> set (AllowList a)
      \<and> consumed ctx + length (AllowList a) * unat gasCostPerIteration \<le> limit ctx \<longrightarrow>
      charges (snd (SendAuthorization_Accept a ctx (IsMsgSend m)))
        = charges ctx @ replicate (length (AllowList a)) gasCostPerIteration
      \<and> consumed (snd (SendAuthorization_Accept a ctx (IsMsgSend m)))
        = consumed ctx + length (AllowList a) * unat gasCostPerIteration)
   \<and> (\<not> snd (SafeSub (SpendLimit a) (Amount m))
      \<and> i < length (AllowList a) \<and> AllowList a ! i = ToAddress m
      \<and> ToAddress m \<notin> set (take i (AllowList a))
      \<and> consumed ctx + Suc i * unat gasCostPerIteration \<le> limit ctx \<longrightarrow>
      charges (snd (SendAuthorization_Accept a ctx (IsMsgSend m)))
        = charges ctx @ replicate (Suc i) gasCostPerIteration
      \<and> consumed (snd (SendAuthorization_Accept a ctx (IsMsgSend m)))
        = consumed ctx + Suc i * unat gasCostPerIteration)
   \<and> (\<not> snd (SafeSub (SpendLimit a) (Amount m)) \<longrightarrow>
      charges (snd (SendAuthorization_Accept a ctx (IsMsgSend m)))
        = charges ctx
          @ replicate (min (entriesScanned (ToAddress m) (AllowList a))
                           (Suc ((limit ctx - consumed ctx) div unat gasCostPerIteration)))
              gasCostPerIteration)
   \<and> (AllowList a = [] \<longrightarrow> snd (SendAuthorization_Accept a ctx msg) = ctx)
   \<and> snd (SendAuthorization_Accept a ctx (OtherMsg u)) = ctx
   \<and> (snd (SafeSub (SpendLimit a) (Amount m)) \<longrightarrow>
        snd (SendAuthorization_Accept a ctx (IsMsgSend m)) = ctx)"
proof (intro conjI impI)
  assume h: "\<not> snd (SafeSub (SpendLimit a) (Amount m)) \<and> AllowList a \<noteq> []
      \<and> ToAddress m \<notin> set (AllowList a)
      \<and> consumed ctx + length (AllowList a) * unat gasCostPerIteration \<le> limit ctx"
  then have n: "entriesScanned (ToAddress m) (AllowList a) = length (AllowList a)"
    by (simp add: entriesScanned_absent)
  with h have "snd (SendAuthorization_Accept a ctx (IsMsgSend m))
               = charged (length (AllowList a)) ctx"
    by (simp add: Accept_enough)
  then show "charges (snd (SendAuthorization_Accept a ctx (IsMsgSend m)))
        = charges ctx @ replicate (length (AllowList a)) gasCostPerIteration"
    and "consumed (snd (SendAuthorization_Accept a ctx (IsMsgSend m)))
        = consumed ctx + length (AllowList a) * unat gasCostPerIteration"
    by simp_all
next
  assume h: "\<not> snd (SafeSub (SpendLimit a) (Amount m))
      \<and> i < length (AllowList a) \<and> AllowList a ! i = ToAddress m
      \<and> ToAddress m \<notin> set (take i (AllowList a))
      \<and> consumed ctx + Suc i * unat gasCostPerIteration \<le> limit ctx"
  then have n: "entriesScanned (ToAddress m) (AllowList a) = Suc i"
    by (simp add: entriesScanned_first)
  with h have "snd (SendAuthorization_Accept a ctx (IsMsgSend m)) = charged (Suc i) ctx"
    by (simp add: Accept_enough)
  then show "charges (snd (SendAuthorization_Accept a ctx (IsMsgSend m)))
        = charges ctx @ replicate (Suc i) gasCostPerIteration"
    and "consumed (snd (SendAuthorization_Accept a ctx (IsMsgSend m)))
        = consumed ctx + Suc i * unat gasCostPerIteration"
    by simp_all
next
  assume "\<not> snd (SafeSub (SpendLimit a) (Amount m))"
  then have "snd (SendAuthorization_Accept a ctx (IsMsgSend m))
             = snd (allowListLoop (ToAddress m) (AllowList a) ctx)"
    by (simp add: Accept_IsMsgSend split: prod.splits sum.splits)
  then show "charges (snd (SendAuthorization_Accept a ctx (IsMsgSend m)))
        = charges ctx
          @ replicate (min (entriesScanned (ToAddress m) (AllowList a))
                           (Suc ((limit ctx - consumed ctx) div unat gasCostPerIteration)))
              gasCostPerIteration"
    by (simp add: allowListLoop_meter)
next
  assume e: "AllowList a = []"
  show "snd (SendAuthorization_Accept a ctx msg) = ctx"
  proof (cases msg)
    case (OtherMsg u)
    then show ?thesis by (simp add: Accept_OtherMsg)
  next
    case (IsMsgSend m')
    with e show ?thesis by (simp add: Accept_empty_list)
  qed
next
  show "snd (SendAuthorization_Accept a ctx (OtherMsg u)) = ctx"
    by (simp add: Accept_OtherMsg)
next
  assume "snd (SafeSub (SpendLimit a) (Amount m))"
  then show "snd (SendAuthorization_Accept a ctx (IsMsgSend m)) = ctx"
    by (simp add: Accept_negative)
qed

theorem Accept_metering_witness:
  "\<not> snd (SafeSub [(''atom'', 50)] [(''atom'', 10)])
   \<and> ''C'' \<notin> set [''A'', ''B'', ''D'']
   \<and> charges (snd (SendAuthorization_Accept
        \<lparr>SpendLimit = [(''atom'', 50)], AllowList = [''A'', ''B'', ''D'']\<rparr>
        \<lparr>limit = 100, consumed = 0, charges = []\<rparr>
        (IsMsgSend \<lparr>ToAddress = ''C'', Amount = [(''atom'', 10)]\<rparr>)))
     = [10, 10, 10]
   \<and> [''A'', ''B'', ''D''] ! 1 = ''B'' \<and> ''B'' \<notin> set (take 1 [''A'', ''B'', ''D''])
   \<and> charges (snd (SendAuthorization_Accept
        \<lparr>SpendLimit = [(''atom'', 50)], AllowList = [''A'', ''B'', ''D'']\<rparr>
        \<lparr>limit = 100, consumed = 0, charges = []\<rparr>
        (IsMsgSend \<lparr>ToAddress = ''B'', Amount = [(''atom'', 10)]\<rparr>)))
     = [10, 10]
   \<and> snd (SafeSub [(''atom'', 50)] [(''atom'', 60)])
   \<and> snd (SendAuthorization_Accept
        \<lparr>SpendLimit = [(''atom'', 50)], AllowList = [''A'', ''B'', ''D'']\<rparr>
        \<lparr>limit = 100, consumed = 0, charges = []\<rparr>
        (IsMsgSend \<lparr>ToAddress = ''B'', Amount = [(''atom'', 60)]\<rparr>))
     = \<lparr>limit = 100, consumed = 0, charges = []\<rparr>"
  using Accept_metering
      [of "\<lparr>SpendLimit = [(''atom'', 50)], AllowList = [''A'', ''B'', ''D'']\<rparr>"
          "\<lparr>ToAddress = ''C'', Amount = [(''atom'', 10)]\<rparr>"
          "\<lparr>limit = 100, consumed = 0, charges = []\<rparr>" 1]
    Accept_metering
      [of "\<lparr>SpendLimit = [(''atom'', 50)], AllowList = [''A'', ''B'', ''D'']\<rparr>"
          "\<lparr>ToAddress = ''B'', Amount = [(''atom'', 10)]\<rparr>"
          "\<lparr>limit = 100, consumed = 0, charges = []\<rparr>" 1]
    Accept_metering
      [of "\<lparr>SpendLimit = [(''atom'', 50)], AllowList = [''A'', ''B'', ''D'']\<rparr>"
          "\<lparr>ToAddress = ''B'', Amount = [(''atom'', 60)]\<rparr>"
          "\<lparr>limit = 100, consumed = 0, charges = []\<rparr>" 1]
  by (simp add: SafeSub_def safeAdd_def negative_def IsAnyNegative_def gasCostPerIteration_def
      numeral_3_eq_3)

subsection \<open>C3: the residual decision\<close>

text \<open>
  C3. Residual decision: for every accepted transfer, the residual is the difference per
  denomination of the spend limit and the amount of the transfer. If the residual is
  zero in every denomination, the response is \<open>Accept\<close> with \<open>Delete\<close> set and no
  successor record; otherwise it is \<open>Accept\<close> with \<open>Delete\<close> unset and a successor
  record that holds the residual as its spend limit and the allow list of the record
  evaluated. The record evaluated is a value, and the response is built from it: nothing
  is written to it.
\<close>

theorem Accept_residual_decision:
  assumes "SendAuthorization_Accept a ctx (IsMsgSend m) = (Inr resp, ctx')"
  shows "(\<forall>d. AmountOf (fst (SafeSub (SpendLimit a) (Amount m))) d
              = AmountOf (SpendLimit a) d - AmountOf (Amount m) d)
       \<and> (if \<forall>d. AmountOf (SpendLimit a) d - AmountOf (Amount m) d = 0
          then resp = \<lparr>Accept = True, Delete = True, Updated = None\<rparr>
          else resp = \<lparr>Accept = True, Delete = False,
                        Updated = Some \<lparr>SpendLimit = fst (SafeSub (SpendLimit a) (Amount m)),
                                        AllowList = AllowList a\<rparr>\<rparr>)"
proof -
  from assms have "fst (SendAuthorization_Accept a ctx (IsMsgSend m)) = Inr resp" by simp
  from Accept_accepted(2) [OF this] show ?thesis
    by (simp add: SafeSub_AmountOf SafeSub_IsZero_iff)
qed

theorem Accept_residual_decision_witness:
  "SendAuthorization_Accept \<lparr>SpendLimit = [(''atom'', 100), (''btc'', 5)], AllowList = [''B'']\<rparr>
        \<lparr>limit = 50, consumed = 0, charges = []\<rparr>
        (IsMsgSend \<lparr>ToAddress = ''B'', Amount = [(''atom'', 100)]\<rparr>)
     = (Inr \<lparr>Accept = True, Delete = False,
             Updated = Some \<lparr>SpendLimit = [(''btc'', 5)], AllowList = [''B'']\<rparr>\<rparr>,
        \<lparr>limit = 50, consumed = 10, charges = [10]\<rparr>)
   \<and> \<not> (\<forall>d. AmountOf [(''atom'', 100), (''btc'', 5)] d - AmountOf [(''atom'', 100)] d = 0)
   \<and> fst (SafeSub [(''atom'', 100), (''btc'', 5)] [(''atom'', 100)]) = [(''btc'', 5)]"
proof -
  have run: "SendAuthorization_Accept
        \<lparr>SpendLimit = [(''atom'', 100), (''btc'', 5)], AllowList = [''B'']\<rparr>
        \<lparr>limit = 50, consumed = 0, charges = []\<rparr>
        (IsMsgSend \<lparr>ToAddress = ''B'', Amount = [(''atom'', 100)]\<rparr>)
     = (Inr \<lparr>Accept = True, Delete = False,
             Updated = Some \<lparr>SpendLimit = [(''btc'', 5)], AllowList = [''B'']\<rparr>\<rparr>,
        \<lparr>limit = 50, consumed = 10, charges = [10]\<rparr>)"
    by (simp add: eval_defs)
  have nz: "\<not> (\<forall>d. AmountOf [(''atom'', 100), (''btc'', 5)] d - AmountOf [(''atom'', 100)] d = 0)"
    by (rule notI, drule spec [of _ "''btc''"]) simp
  have res: "fst (SafeSub [(''atom'', 100), (''btc'', 5)] [(''atom'', 100)]) = [(''btc'', 5)]"
    by (simp add: SafeSub_def safeAdd_def negative_def Let_def)
  from Accept_residual_decision [OF run] have
    "\<forall>d. AmountOf (fst (SafeSub [(''atom'', 100), (''btc'', 5)] [(''atom'', 100)])) d
         = AmountOf [(''atom'', 100), (''btc'', 5)] d - AmountOf [(''atom'', 100)] d"
    by simp
  with run nz res show ?thesis by blast
qed

subsection \<open>C6: validation\<close>

text \<open>
  C6. Validation: \<open>ValidateBasic\<close> fails with \<open>ErrInvalidCoins\<close> when the spend limit
  is empty or holds an amount that is not strictly positive; otherwise it fails with
  \<open>ErrDuplicateEntry\<close> when the allow list holds an address twice (the loop returns at
  the first address it has already seen); and it returns no error if and only if the
  spend limit is not empty, all its amounts are strictly positive and the addresses of
  the allow list are pairwise distinct.
\<close>

theorem ValidateBasic_result:
  "SendAuthorization_ValidateBasic a =
     (if SpendLimit a = [] \<or> (\<exists>c \<in> set (SpendLimit a). snd c \<le> 0) then Some ErrInvalidCoins
      else if \<not> distinct (AllowList a) then Some ErrDuplicateEntry
      else None)
   \<and> (SendAuthorization_ValidateBasic a = None \<longleftrightarrow>
        SpendLimit a \<noteq> [] \<and> (\<forall>c \<in> set (SpendLimit a). 0 < snd c) \<and> distinct (AllowList a))"
proof -
  have "(\<exists>c \<in> set (SpendLimit a). snd c \<le> 0) \<longleftrightarrow> \<not> (\<forall>c \<in> set (SpendLimit a). 0 < snd c)"
    by (auto simp: not_less)
  then show ?thesis by (simp add: ValidateBasic_unfold)
qed

theorem ValidateBasic_result_witness:
  "SendAuthorization_ValidateBasic \<lparr>SpendLimit = [], AllowList = []\<rparr> = Some ErrInvalidCoins
   \<and> SendAuthorization_ValidateBasic \<lparr>SpendLimit = [(''atom'', 0)], AllowList = []\<rparr>
       = Some ErrInvalidCoins
   \<and> SendAuthorization_ValidateBasic \<lparr>SpendLimit = [(''atom'', 1)], AllowList = [''X'', ''X'']\<rparr>
       = Some ErrDuplicateEntry
   \<and> SendAuthorization_ValidateBasic \<lparr>SpendLimit = [(''atom'', 1)], AllowList = [''X'', ''Y'']\<rparr>
       = None"
  using ValidateBasic_result [of "\<lparr>SpendLimit = [], AllowList = []\<rparr>"]
    ValidateBasic_result [of "\<lparr>SpendLimit = [(''atom'', 0)], AllowList = []\<rparr>"]
    ValidateBasic_result [of "\<lparr>SpendLimit = [(''atom'', 1)], AllowList = [''X'', ''X'']\<rparr>"]
    ValidateBasic_result [of "\<lparr>SpendLimit = [(''atom'', 1)], AllowList = [''X'', ''Y'']\<rparr>"]
  by simp

subsection \<open>C9: the successor of a valid record is valid\<close>



subsection \<open>C10: the constructor and the empty list of allowed addresses\<close>

text \<open>
  C10. An empty list of allowed addresses is no restriction: for every spend limit,
  \<open>NewSendAuthorization\<close> with an empty (or nil) list returns a record whose allow list
  is nil. \<open>Accept\<close> permits any recipient against that record: a transfer is decided
  by the limit check alone, so that a transfer within the limit is accepted whatever its
  recipient, with the deletion signal or the successor record as the residual demands,
  and a transfer over the limit is rejected with \<open>ErrInsufficientFunds\<close>; no message is
  rejected with \<open>ErrUnauthorized\<close> and the meter is not charged. \<open>ValidateBasic\<close>
  finds no duplicate in the record, so that it accepts the record exactly when the spend
  limit is valid. For a list that is not empty, the record constructed holds the string
  of the codec for each address, one per address and in the order of the input; it is
  constructed whenever the codec converts every address, and the constructor panics
  otherwise.
\<close>

theorem NewSendAuthorization_allow_list:
  "(allowed = [] \<longrightarrow>
      NewSendAuthorization spendLimit allowed addressCodec
        = Inr \<lparr>SpendLimit = spendLimit, AllowList = []\<rparr>
      \<and> fst (SendAuthorization_Accept \<lparr>SpendLimit = spendLimit, AllowList = []\<rparr> ctx msg)
          \<noteq> Inl ErrUnauthorized
      \<and> snd (SendAuthorization_Accept \<lparr>SpendLimit = spendLimit, AllowList = []\<rparr> ctx msg) = ctx
      \<and> SendAuthorization_Accept \<lparr>SpendLimit = spendLimit, AllowList = []\<rparr> ctx (IsMsgSend m)
          = (if snd (SafeSub spendLimit (Amount m)) then Inl ErrInsufficientFunds
             else if IsZero (fst (SafeSub spendLimit (Amount m)))
             then Inr \<lparr>Accept = True, Delete = True, Updated = None\<rparr>
             else Inr \<lparr>Accept = True, Delete = False,
                       Updated = Some \<lparr>SpendLimit = fst (SafeSub spendLimit (Amount m)),
                                       AllowList = []\<rparr>\<rparr>,
             ctx)
      \<and> (\<not> snd (SafeSub spendLimit (Amount m)) \<longrightarrow>
           (\<exists>resp. SendAuthorization_Accept \<lparr>SpendLimit = spendLimit, AllowList = []\<rparr> ctx
                     (IsMsgSend m) = (Inr resp, ctx)
                   \<and> Accept resp))
      \<and> SendAuthorization_ValidateBasic \<lparr>SpendLimit = spendLimit, AllowList = []\<rparr>
          \<noteq> Some ErrDuplicateEntry
      \<and> (SendAuthorization_ValidateBasic \<lparr>SpendLimit = spendLimit, AllowList = []\<rparr> = None
           \<longleftrightarrow> spendLimit \<noteq> [] \<and> (\<forall>c \<in> set spendLimit. 0 < snd c)))
   \<and> (allowed \<noteq> [] \<and> NewSendAuthorization spendLimit allowed addressCodec = Inr a \<longrightarrow>
        SpendLimit a = spendLimit
        \<and> length (AllowList a) = length allowed
        \<and> map addressCodec allowed = map Inr (AllowList a))
   \<and> (allowed \<noteq> [] \<and> (\<forall>addr \<in> set allowed. \<exists>s. addressCodec addr = Inr s) \<longrightarrow>
        (\<exists>a. NewSendAuthorization spendLimit allowed addressCodec = Inr a))"
proof (intro conjI impI)
  assume e: "allowed = []"
  let ?a = "\<lparr>SpendLimit = spendLimit, AllowList = []\<rparr>"
  show "NewSendAuthorization spendLimit allowed addressCodec = Inr ?a"
    using e by (simp add: NewSendAuthorization_def toBech32Addresses_def)
  show "fst (SendAuthorization_Accept ?a ctx msg) \<noteq> Inl ErrUnauthorized"
    by (cases msg) (simp_all add: Accept_OtherMsg Accept_empty_list)
  show "snd (SendAuthorization_Accept ?a ctx msg) = ctx"
    by (cases msg) (simp_all add: Accept_OtherMsg Accept_empty_list)
  show "SendAuthorization_Accept ?a ctx (IsMsgSend m)
          = (if snd (SafeSub spendLimit (Amount m)) then Inl ErrInsufficientFunds
             else if IsZero (fst (SafeSub spendLimit (Amount m)))
             then Inr \<lparr>Accept = True, Delete = True, Updated = None\<rparr>
             else Inr \<lparr>Accept = True, Delete = False,
                       Updated = Some \<lparr>SpendLimit = fst (SafeSub spendLimit (Amount m)),
                                       AllowList = []\<rparr>\<rparr>,
             ctx)"
    by (simp add: Accept_empty_list)
  show "\<exists>resp. SendAuthorization_Accept ?a ctx (IsMsgSend m) = (Inr resp, ctx) \<and> Accept resp"
    if "\<not> snd (SafeSub spendLimit (Amount m))"
    using that by (simp add: Accept_empty_list)
  show "SendAuthorization_ValidateBasic ?a \<noteq> Some ErrDuplicateEntry"
    by (simp add: ValidateBasic_unfold)
  show "SendAuthorization_ValidateBasic ?a = None
           \<longleftrightarrow> spendLimit \<noteq> [] \<and> (\<forall>c \<in> set spendLimit. 0 < snd c)"
    by (simp add: ValidateBasic_None_iff)
next
  assume h: "allowed \<noteq> [] \<and> NewSendAuthorization spendLimit allowed addressCodec = Inr a"
  then obtain ys where ys: "toBech32Addresses allowed addressCodec = Inr ys"
    and a: "a = \<lparr>SpendLimit = spendLimit, AllowList = ys\<rparr>"
    by (auto simp: NewSendAuthorization_def split: sum.splits)
  from ys have ok: "\<forall>x \<in> set allowed. \<exists>s. addressCodec x = Inr s"
    and eq: "ys = map (\<lambda>x. projr (addressCodec x)) allowed"
    by (simp_all add: toBech32Addresses_result)
  show "SpendLimit a = spendLimit" using a by simp
  show "length (AllowList a) = length allowed" using a eq by simp
  have "map addressCodec allowed = map (\<lambda>x. Inr (projr (addressCodec x))) allowed"
    using ok by (intro map_cong) auto
  then show "map addressCodec allowed = map Inr (AllowList a)"
    using a eq by (simp add: comp_def)
next
  assume "allowed \<noteq> [] \<and> (\<forall>addr \<in> set allowed. \<exists>s. addressCodec addr = Inr s)"
  then have "toBech32Addresses allowed addressCodec
             = Inr (map (\<lambda>x. projr (addressCodec x)) allowed)"
    by (simp add: toBech32Addresses_result)
  then show "\<exists>a. NewSendAuthorization spendLimit allowed addressCodec = Inr a"
    by (simp add: NewSendAuthorization_def)
qed

theorem NewSendAuthorization_allow_list_witness:
  "NewSendAuthorization [(''atom'', 7)] [] (\<lambda>addr. Inl (ErrCodec ''no codec''))
     = Inr \<lparr>SpendLimit = [(''atom'', 7)], AllowList = []\<rparr>
   \<and> \<not> snd (SafeSub [(''atom'', 7)] [(''atom'', 3)])
   \<and> SendAuthorization_Accept \<lparr>SpendLimit = [(''atom'', 7)], AllowList = []\<rparr>
        \<lparr>limit = 0, consumed = 0, charges = []\<rparr>
        (IsMsgSend \<lparr>ToAddress = ''anyone'', Amount = [(''atom'', 3)]\<rparr>)
     = (Inr \<lparr>Accept = True, Delete = False,
             Updated = Some \<lparr>SpendLimit = [(''atom'', 4)], AllowList = []\<rparr>\<rparr>,
        \<lparr>limit = 0, consumed = 0, charges = []\<rparr>)
   \<and> SendAuthorization_ValidateBasic \<lparr>SpendLimit = [(''atom'', 7)], AllowList = []\<rparr> = None
   \<and> [[1, 2], [3 :: 8 word]] \<noteq> []
   \<and> NewSendAuthorization [(''atom'', 7)] [[1, 2], [3]]
        (\<lambda>addr. if addr = [] then Inl (ErrCodec ''empty address'')
                 else Inr (replicate (length addr) CHR ''a''))
     = Inr \<lparr>SpendLimit = [(''atom'', 7)], AllowList = [''aa'', ''a'']\<rparr>
   \<and> map (\<lambda>addr. if addr = [] then Inl (ErrCodec ''empty address'')
                  else Inr (replicate (length addr) CHR ''a'')) [[1, 2], [3 :: 8 word]]
     = map Inr [''aa'', ''a'']"
proof -
  have run: "NewSendAuthorization [(''atom'', 7)] [[1, 2], [3]]
        (\<lambda>addr. if addr = [] then Inl (ErrCodec ''empty address'')
                 else Inr (replicate (length addr) CHR ''a''))
     = Inr \<lparr>SpendLimit = [(''atom'', 7)], AllowList = [''aa'', ''a'']\<rparr>"
    by (simp add: NewSendAuthorization_def toBech32Addresses_def numeral_2_eq_2)
  have sub: "SafeSub [(''atom'', 7)] [(''atom'', 3)] = ([(''atom'', 4)], False)"
    by (simp add: SafeSub_def safeAdd_def negative_def IsAnyNegative_def Let_def)
  from NewSendAuthorization_allow_list
      [where allowed = "[]" and spendLimit = "[(''atom'', 7)]"
         and addressCodec = "\<lambda>addr. Inl (ErrCodec ''no codec'')"
         and ctx = "\<lparr>limit = 0, consumed = 0, charges = []\<rparr>"
         and m = "\<lparr>ToAddress = ''anyone'', Amount = [(''atom'', 3)]\<rparr>"]
    NewSendAuthorization_allow_list
      [where allowed = "[[1, 2], [3]]" and spendLimit = "[(''atom'', 7)]"
         and addressCodec = "\<lambda>addr. if addr = [] then Inl (ErrCodec ''empty address'')
                 else Inr (replicate (length addr) CHR ''a'')"
         and a = "\<lparr>SpendLimit = [(''atom'', 7)], AllowList = [''aa'', ''a'']\<rparr>"]
    run sub
  show ?thesis by (simp add: IsZero_def)
qed

subsection \<open>C8: the scenarios of the specification\<close>



subsection \<open>C7: monotonicity\<close>

text \<open>
  C7. Monotonicity. A sequence of transfers, each with the context it is evaluated in, is
  run against a record: a transfer that is rejected leaves the record, a transfer that
  is accepted replaces it by the successor of the response, and a response without a
  successor ends the grant. \<open>acceptedSteps\<close> lists the accepted transfers, each with the
  record it was evaluated against and its response. Where the amounts of the transfers
  are not negative, every accepted transfer of the sequence meets a spend limit that is,
  in every denomination, at most the one the sequence started from, and leaves a
  residual that is, in every denomination, at most the spend limit it met and not
  negative; its response carries the deletion signal exactly when the residual is zero
  in every denomination, and the residual as the spend limit of the successor otherwise.
\<close>

theorem Accept_monotone:
  assumes "\<forall>s \<in> set steps. \<forall>c \<in> set (Amount (snd s)). 0 \<le> snd c"
    and "(b, m, resp) \<in> set (acceptedSteps a steps)"
  shows "(\<forall>d. AmountOf (SpendLimit b) d \<le> AmountOf (SpendLimit a) d)
       \<and> (\<forall>d. AmountOf (fst (SafeSub (SpendLimit b) (Amount m))) d \<le> AmountOf (SpendLimit b) d)
       \<and> (\<forall>d. 0 \<le> AmountOf (fst (SafeSub (SpendLimit b) (Amount m))) d)
       \<and> (Delete resp \<longleftrightarrow> (\<forall>d. AmountOf (fst (SafeSub (SpendLimit b) (Amount m))) d = 0))
       \<and> (\<not> Delete resp \<longrightarrow>
            Updated resp = Some \<lparr>SpendLimit = fst (SafeSub (SpendLimit b) (Amount m)),
                                 AllowList = AllowList b\<rparr>)
       \<and> (Delete resp \<longrightarrow> Updated resp = None)"
proof -
  let ?residual = "fst (SafeSub (SpendLimit b) (Amount m))"
  from acceptedSteps_member [OF assms(2) assms(1)] obtain ctx
    where le: "\<forall>d. AmountOf (SpendLimit b) d \<le> AmountOf (SpendLimit a) d"
      and mem: "(ctx, m) \<in> set steps"
      and acc: "fst (SendAuthorization_Accept b ctx (IsMsgSend m)) = Inr resp"
    by blast
  from assms(1) mem have nn: "\<forall>c \<in> set (Amount m). 0 \<le> snd c" by force
  have res: "\<And>d. AmountOf ?residual d = AmountOf (SpendLimit b) d - AmountOf (Amount m) d"
    by (simp add: SafeSub_AmountOf)
  have step: "\<forall>d. AmountOf ?residual d \<le> AmountOf (SpendLimit b) d"
    using AmountOf_nonneg [OF nn] by (simp add: res)
  have valid: "\<not> snd (SafeSub (SpendLimit b) (Amount m))"
    by (rule Accept_accepted(1) [OF acc])
  then have pos: "\<forall>d. 0 \<le> AmountOf ?residual d"
    by (simp add: SafeSub_negative_iff res not_less)
  have zero: "IsZero ?residual \<longleftrightarrow> (\<forall>d. AmountOf ?residual d = 0)"
    by (simp add: SafeSub_IsZero_iff res)
  from Accept_accepted(2) [OF acc] zero
  have del: "Delete resp \<longleftrightarrow> (\<forall>d. AmountOf ?residual d = 0)"
    and upd: "\<not> Delete resp \<longrightarrow>
            Updated resp = Some \<lparr>SpendLimit = ?residual, AllowList = AllowList b\<rparr>"
    and none: "Delete resp \<longrightarrow> Updated resp = None"
    by (auto split: if_splits)
  from le step pos del upd none show ?thesis by blast
qed

theorem Accept_monotone_witness:
  "(\<lparr>SpendLimit = [(''atom'', 60)], AllowList = []\<rparr>,
    \<lparr>ToAddress = ''Z'', Amount = [(''atom'', 60)]\<rparr>,
    \<lparr>Accept = True, Delete = True, Updated = None\<rparr>)
     \<in> set (acceptedSteps \<lparr>SpendLimit = [(''atom'', 100)], AllowList = []\<rparr>
         [(\<lparr>limit = 0, consumed = 0, charges = []\<rparr>,
           \<lparr>ToAddress = ''Z'', Amount = [(''atom'', 40)]\<rparr>),
          (\<lparr>limit = 0, consumed = 0, charges = []\<rparr>,
           \<lparr>ToAddress = ''Z'', Amount = [(''atom'', 70)]\<rparr>),
          (\<lparr>limit = 0, consumed = 0, charges = []\<rparr>,
           \<lparr>ToAddress = ''Z'', Amount = [(''atom'', 60)]\<rparr>)])
   \<and> AmountOf [(''atom'', 60)] ''atom'' \<le> AmountOf [(''atom'', 100)] ''atom''
   \<and> AmountOf (fst (SafeSub [(''atom'', 60)] [(''atom'', 60)])) ''atom'' = 0"
proof -
  let ?g = "\<lparr>limit = 0, consumed = 0, charges = []\<rparr>"
  let ?steps = "[(?g, \<lparr>ToAddress = ''Z'', Amount = [(''atom'', 40)]\<rparr>),
          (?g, \<lparr>ToAddress = ''Z'', Amount = [(''atom'', 70)]\<rparr>),
          (?g, \<lparr>ToAddress = ''Z'', Amount = [(''atom'', 60)]\<rparr>)]"
  have nn: "\<forall>s \<in> set ?steps. \<forall>c \<in> set (Amount (snd s)). 0 \<le> snd c"
    by simp
  have mem: "(\<lparr>SpendLimit = [(''atom'', 60)], AllowList = []\<rparr>,
    \<lparr>ToAddress = ''Z'', Amount = [(''atom'', 60)]\<rparr>,
    \<lparr>Accept = True, Delete = True, Updated = None\<rparr>)
     \<in> set (acceptedSteps \<lparr>SpendLimit = [(''atom'', 100)], AllowList = []\<rparr> ?steps)"
    by (simp add: eval_defs)
  from Accept_monotone [OF nn mem] have
    "(\<forall>d. AmountOf [(''atom'', 60)] d \<le> AmountOf [(''atom'', 100)] d)
     \<and> (\<forall>d. AmountOf (fst (SafeSub [(''atom'', 60)] [(''atom'', 60)])) d = 0)"
    by simp
  with mem show ?thesis by blast
qed

end
